theory Spec2Isabelle
  imports Complex_Main "HOL-Library.Word"
begin

section \<open>Python values used by the analyzer\<close>

text \<open>
  A Python \<^verbatim>\<open>str\<close> is modelled as a \<^typ>\<open>string\<close> whose characters are the code points
  U+0000 to U+00FF. The predicates below tabulate what CPython answers on that range;
  code points above U+00FF are outside the model. Exceptions are values of
  \<^verbatim>\<open>py_error\<close>, and a function that can raise returns \<^verbatim>\<open>py_error + 'a\<close>.
\<close>

datatype py_error = ValueError | IndexError | ZeroDivisionError

definition ord :: "char \<Rightarrow> nat" where
  "ord c = of_char c"

definition chr :: "nat \<Rightarrow> char" where
  "chr n = char_of n"

definition isdecimal :: "char \<Rightarrow> bool" where
  "isdecimal c = (48 \<le> ord c \<and> ord c \<le> 57)"

definition isdigit :: "char \<Rightarrow> bool" where
  \<comment> \<open>also true of the superscripts U+00B2, U+00B3 and U+00B9\<close>
  "isdigit c = (isdecimal c \<or> ord c = 178 \<or> ord c = 179 \<or> ord c = 185)"

definition isnumeric :: "char \<Rightarrow> bool" where
  "isnumeric c = (isdigit c \<or> (188 \<le> ord c \<and> ord c \<le> 190))"

definition isupper :: "char \<Rightarrow> bool" where
  "isupper c = ((65 \<le> ord c \<and> ord c \<le> 90) \<or> (192 \<le> ord c \<and> ord c \<le> 214)
                \<or> (216 \<le> ord c \<and> ord c \<le> 222))"

definition islower :: "char \<Rightarrow> bool" where
  "islower c = ((97 \<le> ord c \<and> ord c \<le> 122) \<or> ord c = 170 \<or> ord c = 181 \<or> ord c = 186
                \<or> (223 \<le> ord c \<and> ord c \<le> 246) \<or> (248 \<le> ord c \<and> ord c \<le> 255))"

definition isalpha :: "char \<Rightarrow> bool" where
  "isalpha c = (isupper c \<or> islower c)"

definition isalnum_char :: "char \<Rightarrow> bool" where
  "isalnum_char c = (isalpha c \<or> isdecimal c \<or> isdigit c \<or> isnumeric c)"

definition isalnum :: "string \<Rightarrow> bool" where
  \<comment> \<open>\<^verbatim>\<open>str.isalnum\<close>: false on the empty string\<close>
  "isalnum s = (s \<noteq> [] \<and> list_all isalnum_char s)"

definition isspace :: "char \<Rightarrow> bool" where
  "isspace c = ((9 \<le> ord c \<and> ord c \<le> 13) \<or> (28 \<le> ord c \<and> ord c \<le> 32)
                \<or> ord c = 133 \<or> ord c = 160)"

definition py_int :: "string \<Rightarrow> py_error + nat" where
  \<comment> \<open>\<^verbatim>\<open>int(s)\<close> on a single character or on a match of \<^verbatim>\<open>\d+\<close>: only the decimal
      digits 0 to 9 convert, anything else is a ValueError\<close>
  "py_int s = (if s \<noteq> [] \<and> list_all isdecimal s
               then Inr (foldl (\<lambda>n c. 10 * n + (ord c - 48)) 0 s)
               else Inl ValueError)"

fun py_str :: "nat \<Rightarrow> string" where
  "py_str n = (if n < 10 then [chr (48 + n)] else py_str (n div 10) @ [chr (48 + n mod 10)])"

declare py_str.simps [simp del]

definition zfill :: "string \<Rightarrow> nat \<Rightarrow> string" where
  "zfill s width = replicate (width - length s) (CHR ''0'') @ s"

definition py_floordiv :: "nat \<Rightarrow> nat \<Rightarrow> py_error + nat" where
  "py_floordiv a b = (if b = 0 then Inl ZeroDivisionError else Inr (a div b))"

definition py_range :: "nat \<Rightarrow> nat \<Rightarrow> nat \<Rightarrow> py_error + nat list" where
  \<comment> \<open>\<^verbatim>\<open>range(start, stop, step)\<close> for a step that is not negative\<close>
  "py_range start stop step =
     (if step = 0 then Inl ValueError
      else Inr (map (\<lambda>k. start + k * step) [0..<(stop - start + step - 1) div step]))"

definition py_index :: "string \<Rightarrow> nat \<Rightarrow> py_error + char" where
  "py_index s i = (if i < length s then Inr (s ! i) else Inl IndexError)"

fun replace_first :: "string \<Rightarrow> string \<Rightarrow> string \<Rightarrow> string" where
  \<comment> \<open>\<^verbatim>\<open>s.replace(old, new, 1)\<close>\<close>
  "replace_first old new [] = (if old = [] then new else [])"
| "replace_first old new (c # cs) =
     (if take (length old) (c # cs) = old then new @ drop (length old) (c # cs)
      else c # replace_first old new cs)"

definition insert_at :: "nat \<Rightarrow> 'a \<Rightarrow> 'a list \<Rightarrow> 'a list" where
  \<comment> \<open>\<^verbatim>\<open>xs.insert(pos, x)\<close> for \<^verbatim>\<open>pos >= 0\<close>\<close>
  "insert_at pos x xs = take pos xs @ x # drop pos xs"

fun for_each :: "'a list \<Rightarrow> ('a \<Rightarrow> 's \<Rightarrow> py_error + 's) \<Rightarrow> 's \<Rightarrow> py_error + 's" where
  \<comment> \<open>a \<^verbatim>\<open>for\<close> loop over a state; an exception in the body leaves the loop\<close>
  "for_each [] body s = Inr s"
| "for_each (x # xs) body s =
     (case body x s of Inl e \<Rightarrow> Inl e | Inr s' \<Rightarrow> for_each xs body s')"

fun last_pos :: "(char \<Rightarrow> bool) \<Rightarrow> string \<Rightarrow> nat \<Rightarrow> nat option" where
  \<comment> \<open>\<^verbatim>\<open>for i in range(n - 1, -1, -1): if p(s[i]): pos = i; break\<close>, None for \<^verbatim>\<open>-1\<close>\<close>
  "last_pos p s 0 = None"
| "last_pos p s (Suc i) = (if p (s ! i) then Some i else last_pos p s i)"

function runs :: "(char \<Rightarrow> bool) \<Rightarrow> string \<Rightarrow> string list" where
  \<comment> \<open>\<^verbatim>\<open>re.findall\<close> of a character class under \<^verbatim>\<open>+\<close>: the maximal runs, left to right\<close>
  "runs p [] = []"
| "runs p (c # cs) =
     (if p c then takeWhile p (c # cs) # runs p (dropWhile p cs) else runs p cs)"
  by pat_completeness auto
termination
  by (relation "measure (\<lambda>(p, s). length s)")
     (auto simp: le_imp_less_Suc length_dropWhile_le)

section \<open>Structure analysis\<close>

record patterns =
  consecutive_digits :: "string list"
  consecutive_letters :: "string list"
  special_chars :: "string list"
  alternating_pattern :: bool

record id_structure =
  length_of :: nat
  character_counts :: "char \<rightharpoonup> nat"
  has_hyphens :: bool
  has_underscores :: bool
  alphanumeric_only :: bool
  starts_with_digit :: bool
  pattern_analysis :: patterns

definition is_ascii_letter :: "char \<Rightarrow> bool" where
  \<comment> \<open>the class \<^verbatim>\<open>[a-zA-Z]\<close>\<close>
  "is_ascii_letter c = ((65 \<le> ord c \<and> ord c \<le> 90) \<or> (97 \<le> ord c \<and> ord c \<le> 122))"

definition is_separator :: "char \<Rightarrow> bool" where
  \<comment> \<open>the class \<^verbatim>\<open>[-_]\<close>, and membership of a character in \<^verbatim>\<open>'-_'\<close>\<close>
  "is_separator c = (c = CHR ''-'' \<or> c = CHR ''_'')"

definition check_alternating_pattern :: "string \<Rightarrow> py_error + bool" where
  "check_alternating_pattern doc_id =
     (if length doc_id < 2 then Inr False
      else
        (case for_each [0..<length doc_id - 1]
                (\<lambda>i (u::unit).
                   case py_index doc_id i of Inl e \<Rightarrow> Inl e
                   | Inr c \<Rightarrow>
                      (case py_index doc_id (i + 1) of Inl e \<Rightarrow> Inl e
                       | Inr d \<Rightarrow>
                          (let curr_is_digit = isdigit c; next_is_digit = isdigit d
                           in if curr_is_digit = next_is_digit \<and> \<not> is_separator c
                              then Inr u    \<comment> \<open>\<^verbatim>\<open>continue\<close>\<close>
                              else Inr u))) ()
         of Inl e \<Rightarrow> Inl e
          | Inr u \<Rightarrow> Inr True))"

definition analyze_patterns :: "string \<Rightarrow> py_error + patterns" where
  "analyze_patterns doc_id =
     (case check_alternating_pattern doc_id of Inl e \<Rightarrow> Inl e
      | Inr alt \<Rightarrow>
          Inr \<lparr> consecutive_digits = runs isdecimal doc_id,
                consecutive_letters = runs is_ascii_letter doc_id,
                special_chars = map (\<lambda>c. [c]) (filter is_separator doc_id),
                alternating_pattern = alt \<rparr>)"

definition analyze_id_structure :: "string \<Rightarrow> py_error + id_structure" where
  "analyze_id_structure doc_id =
     (case analyze_patterns doc_id of Inl e \<Rightarrow> Inl e
      | Inr pats \<Rightarrow>
          Inr \<lparr> length_of = length doc_id,
                character_counts = map_of (map (\<lambda>c. (c, count_list doc_id c)) (remdups doc_id)),
                has_hyphens = (CHR ''-'' \<in> set doc_id),
                has_underscores = (CHR ''_'' \<in> set doc_id),
                alphanumeric_only =
                  isalnum (filter (\<lambda>c. c \<noteq> CHR ''_'') (filter (\<lambda>c. c \<noteq> CHR ''-'') doc_id)),
                starts_with_digit = (if doc_id \<noteq> [] then isdigit (doc_id ! 0) else False),
                pattern_analysis = pats \<rparr>)"

section \<open>Mutation strategies\<close>

definition increment_last_char :: "string \<Rightarrow> nat \<Rightarrow> py_error + string list" where
  "increment_last_char doc_id count =
     (if doc_id = [] then Inr []
      else
        (let last_char = last doc_id; base = butlast doc_id
         in for_each [1..<count + 1]
              (\<lambda>i results.
                 if isdigit last_char then
                   (case py_int [last_char] of Inl e \<Rightarrow> Inl e
                    | Inr d \<Rightarrow> Inr (results @ [base @ py_str ((d + i) mod 10)]))
                 else if islower last_char then
                   (let new_char_ord = ord last_char + i
                    in if new_char_ord \<le> ord (CHR ''z'')
                       then Inr (results @ [base @ [chr new_char_ord]]) else Inr results)
                 else if isupper last_char then
                   (let new_char_ord = ord last_char + i
                    in if new_char_ord \<le> ord (CHR ''Z'')
                       then Inr (results @ [base @ [chr new_char_ord]]) else Inr results)
                 else Inr results) []))"

definition increment_last_digit :: "string \<Rightarrow> nat \<Rightarrow> py_error + string list" where
  "increment_last_digit doc_id count =
     (case last_pos isdigit doc_id (length doc_id) of
        None \<Rightarrow> Inr []
      | Some last_digit_pos \<Rightarrow>
          (case py_int [doc_id ! last_digit_pos] of Inl e \<Rightarrow> Inl e
           | Inr last_digit \<Rightarrow>
               (let base_before = take last_digit_pos doc_id;
                    base_after = drop (last_digit_pos + 1) doc_id
                in for_each [1..<count + 1]
                     (\<lambda>i results.
                        Inr (results @ [base_before @ py_str ((last_digit + i) mod 10) @ base_after]))
                     [])))"

definition increment_last_letter :: "string \<Rightarrow> nat \<Rightarrow> py_error + string list" where
  "increment_last_letter doc_id count =
     (case last_pos isalpha doc_id (length doc_id) of
        None \<Rightarrow> Inr []
      | Some last_letter_pos \<Rightarrow>
          (let last_letter = doc_id ! last_letter_pos;
               base_before = take last_letter_pos doc_id;
               base_after = drop (last_letter_pos + 1) doc_id
           in for_each [1..<count + 1]
                (\<lambda>i results.
                   if islower last_letter then
                     (let new_char_ord = ord last_letter + i
                      in if new_char_ord \<le> ord (CHR ''z'')
                         then Inr (results @ [base_before @ [chr new_char_ord] @ base_after])
                         else Inr results)
                   else if isupper last_letter then
                     (let new_char_ord = ord last_letter + i
                      in if new_char_ord \<le> ord (CHR ''Z'')
                         then Inr (results @ [base_before @ [chr new_char_ord] @ base_after])
                         else Inr results)
                   else Inr results) []))"

definition increment_all_positions :: "string \<Rightarrow> nat \<Rightarrow> py_error + string list" where
  "increment_all_positions doc_id max_per_position =
     for_each [0..<length doc_id]
       (\<lambda>pos results0.
          (let char = doc_id ! pos;
               base_before = take pos doc_id;
               base_after = drop (pos + 1) doc_id
           in for_each [1..<max_per_position + 1]
                (\<lambda>i results.
                   if isdigit char then
                     (case py_int [char] of Inl e \<Rightarrow> Inl e
                      | Inr d \<Rightarrow> Inr (results @ [base_before @ py_str ((d + i) mod 10) @ base_after]))
                   else if islower char then
                     (let new_char_ord = ord char + i
                      in if new_char_ord \<le> ord (CHR ''z'')
                         then Inr (results @ [base_before @ [chr new_char_ord] @ base_after])
                         else Inr results)
                   else if isupper char then
                     (let new_char_ord = ord char + i
                      in if new_char_ord \<le> ord (CHR ''Z'')
                         then Inr (results @ [base_before @ [chr new_char_ord] @ base_after])
                         else Inr results)
                   else Inr results) results0)) []"

definition known_hyphen_positions :: "nat list list" where
  "known_hyphen_positions = [[13, 23, 41], []]"

definition hyphen_variation :: "string \<Rightarrow> nat list \<Rightarrow> string list" where
  \<comment> \<open>the body of the loop over \<^verbatim>\<open>known_hyphen_positions\<close>: what it appends to the results\<close>
  "hyphen_variation base_id positions =
     (if length positions = 0 then
        (let new_id = filter (\<lambda>c. c \<noteq> CHR ''-'') base_id
         in if length new_id = 44 then [new_id] else [])
      else
        (let chars = filter (\<lambda>c. c \<noteq> CHR ''-'') base_id
         in if length chars \<ge> Max (set positions) then
              (let chars' = foldl (\<lambda>cs pos. if pos < length cs then insert_at pos (CHR ''-'') cs else cs)
                                  chars (rev (sort positions))
               in if length chars' = 44 then [chars'] else [])
            else []))"

definition test_hyphen_variations :: "string \<Rightarrow> nat \<Rightarrow> string list" where
  "test_hyphen_variations base_id count =
     take count (concat (map (hyphen_variation base_id) known_hyphen_positions))"

definition digit_sequence_variation :: "string \<Rightarrow> string \<Rightarrow> string list" where
  \<comment> \<open>the body of the loop over the digit runs; a ValueError of \<^verbatim>\<open>int(seq)\<close> is caught\<close>
  "digit_sequence_variation base_id seq =
     (if length seq \<ge> 2 then
        (case py_int seq of
           Inl e \<Rightarrow> []
         | Inr num \<Rightarrow>
             concat (map (\<lambda>delta.
                       (let new_num = nat (max 0 (int num + delta));
                            new_seq = zfill (py_str new_num) (length seq);
                            new_id = replace_first seq new_seq base_id
                        in if new_id \<noteq> base_id then [new_id] else []))
                     [-2, -1, 1, 2]))
      else [])"

definition test_digit_sequence_patterns :: "string \<Rightarrow> nat \<Rightarrow> string list" where
  "test_digit_sequence_patterns base_id count =
     take count (concat (map (digit_sequence_variation base_id) (runs isdecimal base_id)))"

definition swap_adjacent :: "string \<Rightarrow> nat \<Rightarrow> string" where
  \<comment> \<open>\<^verbatim>\<open>chars[i], chars[i + 1] = chars[i + 1], chars[i]\<close>\<close>
  "swap_adjacent s i = s[i := s ! (i + 1), i + 1 := s ! i]"

definition test_segment_boundaries :: "string \<Rightarrow> nat \<Rightarrow> string list" where
  "test_segment_boundaries base_id count =
     take count (concat (map (\<lambda>i.
        (let curr_char = base_id ! i; next_char = base_id ! (i + 1)
         in if isalpha curr_char \<and> isdigit next_char then [swap_adjacent base_id i]
            else if isdigit curr_char \<and> isalpha next_char then [swap_adjacent base_id i]
            else [])) [0..<length base_id - 1]))"

definition test_length_variations :: "string \<Rightarrow> nat \<Rightarrow> py_error + string list" where
  "test_length_variations base_id count =
     (case py_floordiv (length base_id) count of Inl e \<Rightarrow> Inl e
      | Inr step1 \<Rightarrow>
     (case py_range 0 (length base_id) step1 of Inl e \<Rightarrow> Inl e
      | Inr positions1 \<Rightarrow>
     (let results1 = concat (map (\<lambda>i.
            if \<not> is_separator (base_id ! i) then
              (let new_id = take i base_id @ drop (i + 1) base_id
               in if length new_id = 43 then [new_id] else [])
            else []) positions1)
      in
     (case py_floordiv (length base_id) count of Inl e \<Rightarrow> Inl e
      | Inr step2 \<Rightarrow>
     (case py_range 0 (length base_id) step2 of Inl e \<Rightarrow> Inl e
      | Inr positions2 \<Rightarrow>
     (let results2 = concat (map (\<lambda>i.
            if isalnum [base_id ! i] then
              (let new_id = take i base_id @ [base_id ! i] @ drop i base_id
               in if length new_id = 45 then [new_id] else [])
            else []) positions2)
      in Inr (take count (results1 @ results2))))))))"

definition generate_pattern_based_ids :: "string \<Rightarrow> nat \<Rightarrow> py_error + string list" where
  "generate_pattern_based_ids base_id count =
     (let r1 = test_hyphen_variations base_id (count div 4);
          r2 = test_digit_sequence_patterns base_id (count div 4);
          r3 = test_segment_boundaries base_id (count div 4)
      in case test_length_variations base_id (count div 4) of
           Inl e \<Rightarrow> Inl e
         | Inr r4 \<Rightarrow> Inr (r1 @ r2 @ r3 @ r4))"

definition default_strategies :: "string list" where
  "default_strategies =
     [''last_char'', ''last_digit'', ''last_letter'', ''all_positions'', ''pattern_based'']"

definition run_strategy :: "string \<Rightarrow> string \<Rightarrow> py_error + string list" where
  \<comment> \<open>the \<^verbatim>\<open>if/elif\<close> chain on the strategy name, with the defaults of the callees;
      an unknown name adds nothing\<close>
  "run_strategy base_id strategy =
     (if strategy = ''last_char'' then increment_last_char base_id 5
      else if strategy = ''last_digit'' then increment_last_digit base_id 10
      else if strategy = ''last_letter'' then increment_last_letter base_id 5
      else if strategy = ''all_positions'' then increment_all_positions base_id 2
      else if strategy = ''pattern_based'' then generate_pattern_based_ids base_id 20
      else Inr [])"

definition generate_incremented_ids :: "string \<Rightarrow> string list option \<Rightarrow> py_error + string list" where
  \<comment> \<open>\<^verbatim>\<open>list(set(ids))\<close> keeps one copy of each candidate in an order that depends on
      the interpreter's hashing; the model keeps the order of first occurrence\<close>
  "generate_incremented_ids base_id increment_strategies =
     (let strategies = (case increment_strategies of None \<Rightarrow> default_strategies | Some ss \<Rightarrow> ss)
      in case for_each strategies
                (\<lambda>strategy incremented_ids.
                   case run_strategy base_id strategy of Inl e \<Rightarrow> Inl e
                   | Inr new_ids \<Rightarrow> Inr (incremented_ids @ new_ids)) []
         of Inl e \<Rightarrow> Inl e
          | Inr incremented_ids \<Rightarrow> Inr (remdups incremented_ids))"

definition diff_positions :: "string \<Rightarrow> string \<Rightarrow> nat list" where
  \<comment> \<open>the positions at which \<^verbatim>\<open>t\<close> differs from \<^verbatim>\<open>s\<close>\<close>
  "diff_positions s t = filter (\<lambda>i. s ! i \<noteq> t ! i) [0..<length s]"

section \<open>Uniqueness analysis\<close>


record DocumentInfo =
  id_str :: string
  url :: string
  accessible :: bool
  title :: "string option"
  content_preview :: "string option"
  content_hash :: "string option"
  error :: "string option"

record uniqueness_report =
  total_tested :: int
  accessible_count :: int
  unique_count :: int
  duplicate_count :: int
  uniqueness_rate :: rat
  unique_hashes :: "string list"

definition py_truediv :: "int \<Rightarrow> int \<Rightarrow> py_error + rat" where
  "py_truediv a b = (if b = 0 then Inl ZeroDivisionError else Inr (of_int a / of_int b))"

definition dict_get :: "('k \<times> 'v) list \<Rightarrow> 'k \<Rightarrow> 'v \<Rightarrow> 'v" where
  "dict_get d k dflt = (case map_of d k of None \<Rightarrow> dflt | Some v \<Rightarrow> v)"

fun dict_set :: "('k \<times> 'v) list \<Rightarrow> 'k \<Rightarrow> 'v \<Rightarrow> ('k \<times> 'v) list" where
  "dict_set [] k v = [(k, v)]"
| "dict_set ((k', v') # d) k v = (if k' = k then (k, v) # d else (k', v') # dict_set d k v)"

definition truthy :: "string option \<Rightarrow> bool" where
  "truthy h = (case h of None \<Rightarrow> False | Some s \<Rightarrow> s \<noteq> [])"

definition count_hash :: "DocumentInfo \<Rightarrow> (string \<times> int) list \<Rightarrow> (string \<times> int) list" where
  "count_hash doc hash_counts =
     (if truthy (content_hash doc)
      then dict_set hash_counts (the (content_hash doc))
             (dict_get hash_counts (the (content_hash doc)) 0 + 1)
      else hash_counts)"

definition analyze_uniqueness :: "DocumentInfo list \<Rightarrow> py_error + uniqueness_report" where
  "analyze_uniqueness results =
     (let accessible_docs = filter accessible results
      in if accessible_docs = [] then
           Inr \<lparr> total_tested = int (length results), accessible_count = 0, unique_count = 0,
                 duplicate_count = 0, uniqueness_rate = 0, unique_hashes = [] \<rparr>
         else
           (let hash_counts = fold count_hash accessible_docs [];
                unique_count = int (length hash_counts);
                duplicate_count = int (length accessible_docs) - unique_count
            in case (if accessible_docs \<noteq> [] then py_truediv unique_count (int (length accessible_docs))
                     else Inr 0) of
                 Inl e \<Rightarrow> Inl e
               | Inr rate \<Rightarrow>
                   Inr \<lparr> total_tested = int (length results),
                         accessible_count = int (length accessible_docs),
                         unique_count = unique_count,
                         duplicate_count = duplicate_count,
                         uniqueness_rate = rate,
                         unique_hashes = map fst hash_counts \<rparr>))"


definition inaccessible_probe :: DocumentInfo where
  "inaccessible_probe =
     \<lparr> id_str = ''a'', url = ''https://docs.google.com/document/d/a/pub'', accessible = False,
       title = None, content_preview = None, content_hash = None,
       error = Some ''Document not found'' \<rparr>"

definition probe_without_hash :: DocumentInfo where
  "probe_without_hash =
     \<lparr> id_str = ''a'', url = ''https://docs.google.com/document/d/a/pub'', accessible = True,
       title = None, content_preview = None, content_hash = None, error = None \<rparr>"


section \<open>Facts about the Python values and the loops\<close>

lemma for_each_append:
  "for_each xs (\<lambda>i r. Inr (r @ [f i])) acc = Inr (acc @ map f xs)"
  by (induction xs arbitrary: acc) auto

lemma for_each_const:
  "(\<And>x. x \<in> set xs \<Longrightarrow> body x u = Inr u) \<Longrightarrow> for_each xs body u = Inr u"
  by (induction xs) auto

lemma py_int_decimal: "isdecimal c \<Longrightarrow> py_int [c] = Inr (ord c - 48)"
  by (simp add: py_int_def)

lemma py_int_not_decimal: "\<not> isdecimal c \<Longrightarrow> py_int [c] = Inl ValueError"
  by (simp add: py_int_def)

lemma py_str_digit: "d < 10 \<Longrightarrow> py_str d = [chr (48 + d)]"
  by (simp add: py_str.simps)

lemma last_pos_Some:
  "last_pos p s n = Some k \<Longrightarrow> k < n \<and> p (s ! k) \<and> (\<forall>i. k < i \<and> i < n \<longrightarrow> \<not> p (s ! i))"
proof (induction n)
  case 0 then show ?case by simp
next
  case (Suc n)
  show ?case
  proof (cases "p (s ! n)")
    case True
    with Suc.prems have "k = n" by simp
    with True show ?thesis by auto
  next
    case False
    with Suc.prems have "last_pos p s n = Some k" by simp
    from Suc.IH[OF this] False show ?thesis
      by (auto simp: less_Suc_eq)
  qed
qed

lemma last_pos_None:
  "last_pos p s n = None \<Longrightarrow> (\<forall>i<n. \<not> p (s ! i))"
  by (induction n) (auto simp: less_Suc_eq split: if_splits)

lemma chr_digit_inj: "a < 10 \<Longrightarrow> b < 10 \<Longrightarrow> chr (48 + a) = chr (48 + b) \<Longrightarrow> a = b"
  unfolding chr_def by simp

lemma chr_ord_decimal: "isdecimal c \<Longrightarrow> chr (48 + (ord c - 48)) = c"
  unfolding chr_def ord_def isdecimal_def by simp

lemma ord_decimal_less: "isdecimal c \<Longrightarrow> ord c - 48 < 10"
  unfolding isdecimal_def by auto

lemma mod10_inj_aux:
  fixes x y d :: nat
  assumes "x \<le> y" "y < x + 10" "(d + x) mod 10 = (d + y) mod 10"
  shows "x = y"
proof -
  have "10 dvd (d + y) - (d + x)"
    using assms(1,3) by (metis add_le_cancel_left mod_eq_dvd_iff_nat)
  then have "10 dvd y - x" by simp
  moreover have "y - x < 10" using assms by simp
  ultimately have "y - x = 0" by (meson dvd_imp_le not_less zero_less_iff_neq_zero)
  with assms(1) show ?thesis by simp
qed

lemma cycle_inj: "inj_on (\<lambda>i. (d + i) mod 10) {1..<(11::nat)}"
proof (rule inj_onI)
  fix x y :: nat
  assume x: "x \<in> {1..<11}" and y: "y \<in> {1..<11}"
    and e: "(d + x) mod 10 = (d + y) mod 10"
  show "x = y"
  proof (cases "x \<le> y")
    case True
    with x y e show ?thesis by (intro mod10_inj_aux[of x y d]) auto
  next
    case False
    with x y e have "y = x" by (intro mod10_inj_aux[of y x d]) auto
    then show ?thesis by simp
  qed
qed

lemma digits_cycle: "d < 10 \<Longrightarrow> (\<lambda>i. (d + i) mod 10) ` {1..<11} = {0..<(10::nat)}"
proof -
  assume d: "d < 10"
  have "card ((\<lambda>i. (d + i) mod 10) ` {1..<(11::nat)}) = 10"
    using card_image[OF cycle_inj[of d]] by simp
  moreover have "(\<lambda>i. (d + i) mod 10) ` {1..<(11::nat)} \<subseteq> {0..<10}" by auto
  ultimately show ?thesis
    by (intro card_subset_eq) auto
qed

lemma increment_last_digit_decimal:
  assumes "last_pos isdigit s (length s) = Some p" and "isdecimal (s ! p)"
  shows "increment_last_digit s 10 =
           Inr (map (\<lambda>i. s[p := chr (48 + (ord (s ! p) - 48 + i) mod 10)]) [1..<11])"
proof -
  from last_pos_Some[OF assms(1)] have p: "p < length s" by simp
  have upd: "take p s @ c # drop (Suc p) s = s[p := c]" for c
    using p by (simp add: upd_conv_take_nth_drop)
  show ?thesis
    using assms
    by (simp add: increment_last_digit_def py_int_decimal for_each_append py_str_digit upd)
qed

lemma generate_last_digit:
  "generate_incremented_ids s (Some [''last_digit'']) =
     (case increment_last_digit s 10 of Inl e \<Rightarrow> Inl e | Inr ids \<Rightarrow> Inr (remdups ids))"
  by (simp add: generate_incremented_ids_def run_strategy_def split: sum.splits)

lemma update_inj: "p < length s \<Longrightarrow> s[p := a] = s[p := b] \<Longrightarrow> a = b"
  by (metis nth_list_update_eq)

lemma filter_eq_index: "p < n \<Longrightarrow> filter (\<lambda>i. i = p) [0..<n] = [p]"
proof (induction n)
  case 0 then show ?case by simp
next
  case (Suc n)
  show ?case
  proof (cases "p = n")
    case True
    have "filter (\<lambda>i. i = n) [0..<n] = []" by (auto simp: filter_empty_conv)
    with True show ?thesis by simp
  next
    case False
    with Suc.prems have "p < n" by simp
    from Suc.IH[OF this] False show ?thesis by simp
  qed
qed

lemma diff_positions_update:
  assumes "p < length s" and "c \<noteq> s ! p"
  shows "diff_positions s (s[p := c]) = [p]"
proof -
  have "filter (\<lambda>i. s ! i \<noteq> s[p := c] ! i) [0..<length s] = filter (\<lambda>i. i = p) [0..<length s]"
    using assms by (intro filter_cong) (auto simp: nth_list_update)
  also have "\<dots> = [p]"
    using assms(1) by (rule filter_eq_index)
  finally show ?thesis by (simp add: diff_positions_def)
qed

lemma diff_positions_same: "diff_positions s s = []"
  by (simp add: diff_positions_def)

section \<open>The last-digit strategy\<close>

text \<open>
  Claim C2, as amended. When the seed has no digit the \<^verbatim>\<open>last_digit\<close> strategy yields
  nothing. When the rightmost digit of the seed (the last character for which
  \<^verbatim>\<open>isdigit\<close> holds, at position \<open>p\<close>) is one of 0 to 9, the strategy returns exactly ten
  candidates: the seed with each of the ten digits written at position \<open>p\<close>. Offset 10 wraps
  onto the original digit, so the seed itself is one of them; every candidate has the
  length of the seed, and each of the other nine differs from the seed at position \<open>p\<close>
  and nowhere else.
\<close>

theorem last_digit_candidates:
  "(last_pos isdigit s (length s) = None \<longrightarrow>
      generate_incremented_ids s (Some [''last_digit'']) = Inr [])
   \<and> (\<forall>p. last_pos isdigit s (length s) = Some p \<and> isdecimal (s ! p) \<longrightarrow>
        p < length s \<and> isdigit (s ! p) \<and> (\<forall>i. p < i \<and> i < length s \<longrightarrow> \<not> isdigit (s ! i))
        \<and> (\<exists>ids. generate_incremented_ids s (Some [''last_digit'']) = Inr ids
              \<and> length ids = 10
              \<and> set ids = (\<lambda>d. s[p := chr (48 + d)]) ` {0..<10}
              \<and> s \<in> set ids
              \<and> (\<forall>t\<in>set ids. length t = length s \<and> (t \<noteq> s \<longrightarrow> diff_positions s t = [p]))))"
proof (intro conjI allI impI)
  assume "last_pos isdigit s (length s) = None"
  then show "generate_incremented_ids s (Some [''last_digit'']) = Inr []"
    by (simp add: generate_last_digit increment_last_digit_def)
next
  fix p
  assume a: "last_pos isdigit s (length s) = Some p \<and> isdecimal (s ! p)"
  then have lp: "last_pos isdigit s (length s) = Some p" and dec: "isdecimal (s ! p)" by simp_all
  from last_pos_Some[OF lp] show "p < length s" and "isdigit (s ! p)" by simp_all
  fix i assume "p < i \<and> i < length s"
  with last_pos_Some[OF lp] show "\<not> isdigit (s ! i)" by blast
next
  fix p
  assume a: "last_pos isdigit s (length s) = Some p \<and> isdecimal (s ! p)"
  then have lp: "last_pos isdigit s (length s) = Some p" and dec: "isdecimal (s ! p)" by simp_all
  from last_pos_Some[OF lp] have p: "p < length s" by simp
  define d where "d = ord (s ! p) - 48"
  have d: "d < 10" unfolding d_def using dec by (rule ord_decimal_less)
  have sp: "s ! p = chr (48 + d)" unfolding d_def using chr_ord_decimal[OF dec] by simp
  define f where "f = (\<lambda>k. s[p := chr (48 + k)])"
  define cands where "cands = map (\<lambda>i. f ((d + i) mod 10)) [1..<11]"
  have inc: "increment_last_digit s 10 = Inr cands"
    unfolding cands_def f_def d_def by (rule increment_last_digit_decimal[OF lp dec])
  have f_inj: "inj_on f {0..<10}"
  proof (rule inj_onI)
    fix a b assume ab: "a \<in> {0..<10::nat}" "b \<in> {0..<10::nat}" and "f a = f b"
    then have "chr (48 + a) = chr (48 + b)" unfolding f_def using update_inj[OF p] by blast
    with ab show "a = b" using chr_digit_inj by simp
  qed
  have "inj_on (\<lambda>i. f ((d + i) mod 10)) {1..<11}"
    using comp_inj_on[OF cycle_inj[of d], of f] f_inj digits_cycle[OF d]
    by (simp add: comp_def)
  then have dist: "distinct cands"
    unfolding cands_def by (simp add: distinct_map)
  have "set cands = f ` ((\<lambda>i. (d + i) mod 10) ` {1..<11})"
    unfolding cands_def by (simp add: image_image)
  then have set_cands: "set cands = f ` {0..<10}"
    by (simp only: digits_cycle[OF d])
  have gen: "generate_incremented_ids s (Some [''last_digit'']) = Inr cands"
    using inc dist by (simp add: generate_last_digit)
  have len: "length cands = 10" unfolding cands_def by simp
  have s_in: "s \<in> set cands"
  proof -
    have "f d = s" unfolding f_def using sp by (metis list_update_id)
    with d show ?thesis unfolding set_cands by force
  qed
  have each: "\<forall>t\<in>set cands. length t = length s \<and> (t \<noteq> s \<longrightarrow> diff_positions s t = [p])"
  proof
    fix t assume "t \<in> set cands"
    then obtain k where t: "t = s[p := chr (48 + k)]" unfolding set_cands f_def by auto
    show "length t = length s \<and> (t \<noteq> s \<longrightarrow> diff_positions s t = [p])"
    proof (intro conjI impI)
      show "length t = length s" by (simp add: t)
      assume "t \<noteq> s"
      then have "chr (48 + k) \<noteq> s ! p" unfolding t by (metis list_update_id)
      from diff_positions_update[OF p this] show "diff_positions s t = [p]" by (simp add: t)
    qed
  qed
  show "\<exists>ids. generate_incremented_ids s (Some [''last_digit'']) = Inr ids
              \<and> length ids = 10
              \<and> set ids = (\<lambda>d. s[p := chr (48 + d)]) ` {0..<10}
              \<and> s \<in> set ids
              \<and> (\<forall>t\<in>set ids. length t = length s \<and> (t \<noteq> s \<longrightarrow> diff_positions s t = [p]))"
    using gen len set_cands s_in each unfolding f_def by blast
qed


text \<open>The seed \<^verbatim>\<open>a1\<close> meets the hypotheses, with \<open>p = 1\<close>.\<close>

theorem last_digit_candidates_witness:
  "last_pos isdigit ''a1'' (length ''a1'') = Some 1 \<and> isdecimal (''a1'' ! 1)
   \<and> (\<exists>ids. generate_incremented_ids ''a1'' (Some [''last_digit'']) = Inr ids
         \<and> length ids = 10 \<and> ''a1'' \<in> set ids
         \<and> (\<forall>t\<in>set ids. length t = length ''a1'' \<and> (t \<noteq> ''a1'' \<longrightarrow> diff_positions ''a1'' t = [1])))"
proof -
  have h: "last_pos isdigit ''a1'' (length ''a1'') = Some 1 \<and> isdecimal (''a1'' ! 1)"
    by (simp add: isdigit_def isdecimal_def ord_def)
  from last_digit_candidates[of "''a1''"] h show ?thesis by blast
qed




text \<open>
  Claim C2 as first stated fails: for the seed \<^verbatim>\<open>a1\<close> offset 10 gives back \<^verbatim>\<open>a1\<close>, which
  differs from the seed at no position; and a seed whose rightmost digit is the
  superscript two makes \<^verbatim>\<open>int\<close> raise.
\<close>

theorem last_digit_counterexample:
  "generate_incremented_ids ''a1'' (Some [''last_digit'']) =
     Inr [''a2'', ''a3'', ''a4'', ''a5'', ''a6'', ''a7'', ''a8'', ''a9'', ''a0'', ''a1'']
   \<and> diff_positions ''a1'' ''a1'' = []
   \<and> generate_incremented_ids [CHR 0xB2] (Some [''last_digit'']) = Inl ValueError"
  by code_simp


section \<open>No strategy, no candidate\<close>

text \<open>
  Claim C7. For every seed, an empty list of strategies gives the empty list of
  candidates.
\<close>

theorem empty_strategies_give_nothing:
  "generate_incremented_ids s (Some []) = Inr []"
  by (simp add: generate_incremented_ids_def)

section \<open>Structure analysis of an identifier\<close>

lemma check_alternating_pattern_value:
  "check_alternating_pattern doc_id = Inr (2 \<le> length doc_id)"
proof (cases "length doc_id < 2")
  case True
  then show ?thesis by (simp add: check_alternating_pattern_def)
next
  case False
  have "for_each [0..<length doc_id - 1]
          (\<lambda>i (u::unit).
             case py_index doc_id i of Inl e \<Rightarrow> Inl e
             | Inr c \<Rightarrow>
                (case py_index doc_id (i + 1) of Inl e \<Rightarrow> Inl e
                 | Inr d \<Rightarrow>
                    (let curr_is_digit = isdigit c; next_is_digit = isdigit d
                     in if curr_is_digit = next_is_digit \<and> \<not> is_separator c
                        then Inr u else Inr u))) () = Inr ()"
    by (rule for_each_const) (auto simp: py_index_def Let_def)
  with False show ?thesis by (simp add: check_alternating_pattern_def)
qed

text \<open>
  Claim C5. The alternating-pattern check returns, without raising, True for every
  identifier of length at least 2 and False for length 0 or 1, whatever the characters
  are; the flag in the report of the structure analysis is that value.
\<close>

theorem alternating_pattern_flag:
  "check_alternating_pattern doc_id = Inr (2 \<le> length doc_id)
   \<and> (\<exists>r. analyze_id_structure doc_id = Inr r
          \<and> alternating_pattern (pattern_analysis r) = (2 \<le> length doc_id))"
  by (simp add: check_alternating_pattern_value analyze_id_structure_def analyze_patterns_def)

text \<open>
  Claim C8. The structure analysis of the empty identifier returns length 0, an empty
  character histogram, every flag false and no run of digits, letters or separators.
\<close>

theorem analyze_empty_id:
  "analyze_id_structure [] =
     Inr \<lparr> length_of = 0, character_counts = Map.empty,
           has_hyphens = False, has_underscores = False,
           alphanumeric_only = False, starts_with_digit = False,
           pattern_analysis = \<lparr> consecutive_digits = [], consecutive_letters = [],
                                special_chars = [], alternating_pattern = False \<rparr> \<rparr>"
  by (simp add: analyze_id_structure_def analyze_patterns_def check_alternating_pattern_def
      isalnum_def)

section \<open>The pattern-based strategy on a short seed\<close>

lemma py_range_zero_step: "py_range a b 0 = Inl ValueError"
  by (simp add: py_range_def)

text \<open>
  Claim C1 says that generating candidates never raises. For a seed of fewer than five
  characters the stride of the length variations, \<^verbatim>\<open>len(base_id) // 5\<close>, is zero, and
  \<^verbatim>\<open>range\<close> raises a ValueError that nothing catches.
\<close>

theorem pattern_based_raises_on_short_seed:
  "length base_id < 5 \<Longrightarrow>
     generate_incremented_ids base_id (Some [''pattern_based'']) = Inl ValueError"
  by (simp add: generate_incremented_ids_def run_strategy_def generate_pattern_based_ids_def
      test_length_variations_def py_floordiv_def py_range_zero_step)

text \<open>The seed \<^verbatim>\<open>abc\<close> is such a seed.\<close>

theorem pattern_based_raises_on_short_seed_witness:
  "length ''abc'' < 5 \<and> generate_incremented_ids ''abc'' (Some [''pattern_based'']) = Inl ValueError"
  using pattern_based_raises_on_short_seed[of "''abc''"] by simp
section \<open>The uniqueness report\<close>

lemma length_dict_set_le: "length (dict_set d k v) \<le> Suc (length d)"
  by (induction d) auto

lemma length_count_hash_le: "length (count_hash doc hc) \<le> Suc (length hc)"
  by (simp add: count_hash_def length_dict_set_le)

lemma length_fold_count_hash: "length (fold count_hash docs hc) \<le> length hc + length docs"
proof (induction docs arbitrary: hc)
  case Nil then show ?case by simp
next
  case (Cons d docs)
  have "length (fold count_hash docs (count_hash d hc)) \<le> length (count_hash d hc) + length docs"
    by (rule Cons.IH)
  also have "\<dots> \<le> Suc (length hc) + length docs"
    using length_count_hash_le[of d hc] by simp
  finally show ?case by simp
qed

lemma analyze_uniqueness_nonempty:
  assumes "filter accessible results \<noteq> []"
  shows "analyze_uniqueness results =
     Inr \<lparr> total_tested = int (length results),
           accessible_count = int (length (filter accessible results)),
           unique_count = int (length (fold count_hash (filter accessible results) [])),
           duplicate_count = int (length (filter accessible results))
                              - int (length (fold count_hash (filter accessible results) [])),
           uniqueness_rate = of_int (int (length (fold count_hash (filter accessible results) [])))
                              / of_int (int (length (filter accessible results))),
           unique_hashes = map fst (fold count_hash (filter accessible results) []) \<rparr>"
  using assms by (simp add: analyze_uniqueness_def Let_def py_truediv_def)

lemma analyze_uniqueness_empty:
  assumes "filter accessible results = []"
  shows "analyze_uniqueness results =
     Inr \<lparr> total_tested = int (length results), accessible_count = 0, unique_count = 0,
           duplicate_count = 0, uniqueness_rate = 0, unique_hashes = [] \<rparr>"
  using assms by (simp add: analyze_uniqueness_def)

text \<open>
  Claim C4. For every list of probe results the analysis returns a report in which the
  unique and the duplicate count add up to the accessible count, the uniqueness rate
  (here the exact quotient that the float division rounds) lies between 0 and 1, and
  the rate is 0 when nothing is accessible.
\<close>

theorem uniqueness_report_invariant:
  "\<exists>r. analyze_uniqueness results = Inr r
     \<and> unique_count r + duplicate_count r = accessible_count r
     \<and> 0 \<le> uniqueness_rate r \<and> uniqueness_rate r \<le> 1
     \<and> (accessible_count r = 0 \<longrightarrow> uniqueness_rate r = 0)"
proof (cases "filter accessible results = []")
  case True
  then show ?thesis by (simp add: analyze_uniqueness_empty)
next
  case False
  then have pos: "0 < length (filter accessible results)" by simp
  have le: "length (fold count_hash (filter accessible results) []) \<le> length (filter accessible results)"
    using length_fold_count_hash[of "filter accessible results" "[]"] by simp
  show ?thesis
    using pos le by (simp add: analyze_uniqueness_nonempty[OF False] divide_le_eq_1)
qed

text \<open>The empty batch has accessible count 0, and its rate is 0.\<close>

theorem uniqueness_report_invariant_witness:
  "\<exists>r. analyze_uniqueness [] = Inr r \<and> accessible_count r = 0 \<and> uniqueness_rate r = 0"
  using uniqueness_report_invariant[of "[]"] by (auto simp: analyze_uniqueness_def)

text \<open>
  Claim C6. On the empty list, and on every list with no accessible result, the analysis
  does not fail: the total is the length of the input, the accessible, unique and
  duplicate counts are 0, the rate is 0 and no fingerprint is listed.
\<close>

theorem no_accessible_results_report:
  "analyze_uniqueness [] =
     Inr \<lparr> total_tested = 0, accessible_count = 0, unique_count = 0,
           duplicate_count = 0, uniqueness_rate = 0, unique_hashes = [] \<rparr>
   \<and> ((\<forall>d\<in>set results. \<not> accessible d) \<longrightarrow>
        analyze_uniqueness results =
          Inr \<lparr> total_tested = int (length results), accessible_count = 0, unique_count = 0,
                duplicate_count = 0, uniqueness_rate = 0, unique_hashes = [] \<rparr>)"
  by (simp add: analyze_uniqueness_empty filter_empty_conv)


lemma count_hash_absent: "content_hash d = None \<Longrightarrow> count_hash d hc = hc"
  by (simp add: count_hash_def truthy_def)

lemma fold_count_hash_skip:
  assumes "content_hash d = None"
  shows "fold count_hash (xs @ d # ys) hc = fold count_hash (xs @ ys) hc"
  using assms by (simp add: count_hash_absent)

text \<open>
  Claim C10. An accessible result without a fingerprint adds one to the accessible count
  and nothing to the unique count, so it adds one to the duplicate count, wherever it
  stands in the batch; alone in a batch it gives unique count 0, duplicate count 1 and
  rate 0.
\<close>

theorem absent_fingerprint_counts_as_duplicate:
  assumes acc: "accessible d" and absent: "content_hash d = None"
  shows "(\<exists>r r'. analyze_uniqueness (xs @ ys) = Inr r
            \<and> analyze_uniqueness (xs @ d # ys) = Inr r'
            \<and> accessible_count r' = accessible_count r + 1
            \<and> unique_count r' = unique_count r
            \<and> duplicate_count r' = duplicate_count r + 1
            \<and> unique_hashes r' = unique_hashes r)
         \<and> analyze_uniqueness [d] =
             Inr \<lparr> total_tested = 1, accessible_count = 1, unique_count = 0,
                   duplicate_count = 1, uniqueness_rate = 0, unique_hashes = [] \<rparr>"
proof
  have ne: "filter accessible (xs @ d # ys) \<noteq> []" using acc by simp
  have fil: "filter accessible (xs @ d # ys) = filter accessible xs @ d # filter accessible ys"
    using acc by simp
  have fold_eq: "fold count_hash (filter accessible (xs @ d # ys)) []
                 = fold count_hash (filter accessible (xs @ ys)) []"
    unfolding fil using fold_count_hash_skip[OF absent, of "filter accessible xs" "filter accessible ys" "[]"]
    by simp
  have len: "length (filter accessible (xs @ d # ys)) = Suc (length (filter accessible (xs @ ys)))"
    using acc by simp
  show "\<exists>r r'. analyze_uniqueness (xs @ ys) = Inr r
            \<and> analyze_uniqueness (xs @ d # ys) = Inr r'
            \<and> accessible_count r' = accessible_count r + 1
            \<and> unique_count r' = unique_count r
            \<and> duplicate_count r' = duplicate_count r + 1
            \<and> unique_hashes r' = unique_hashes r"
  proof (cases "filter accessible (xs @ ys) = []")
    case True
    then have "fold count_hash (filter accessible (xs @ d # ys)) [] = []"
      using fold_eq by simp
    then show ?thesis
      using len True
      by (simp only: analyze_uniqueness_nonempty[OF ne] analyze_uniqueness_empty[OF True]) simp
  next
    case False
    show ?thesis
      using len fold_eq
      by (simp only: analyze_uniqueness_nonempty[OF ne] analyze_uniqueness_nonempty[OF False]) simp
  qed
next
  show "analyze_uniqueness [d] =
             Inr \<lparr> total_tested = 1, accessible_count = 1, unique_count = 0,
                   duplicate_count = 1, uniqueness_rate = 0, unique_hashes = [] \<rparr>"
    using acc absent
    by (simp add: analyze_uniqueness_def py_truediv_def count_hash_absent)
qed

text \<open>An accessible probe result whose fingerprint is absent.\<close>

theorem absent_fingerprint_counts_as_duplicate_witness:
  "accessible probe_without_hash \<and> content_hash probe_without_hash = None
   \<and> analyze_uniqueness [probe_without_hash] =
        Inr \<lparr> total_tested = 1, accessible_count = 1, unique_count = 0,
              duplicate_count = 1, uniqueness_rate = 0, unique_hashes = [] \<rparr>"
proof -
  have h: "accessible probe_without_hash" "content_hash probe_without_hash = None"
    by (simp_all add: probe_without_hash_def)
  from absent_fingerprint_counts_as_duplicate[OF h] h show ?thesis by simp
qed

text \<open>A batch of one result that is not accessible.\<close>

theorem no_accessible_results_report_witness:
  "\<not> accessible inaccessible_probe
   \<and> analyze_uniqueness [inaccessible_probe] =
       Inr \<lparr> total_tested = 1, accessible_count = 0, unique_count = 0,
             duplicate_count = 0, uniqueness_rate = 0, unique_hashes = [] \<rparr>"
proof -
  have h: "\<forall>d\<in>set [inaccessible_probe]. \<not> accessible d"
    by (simp add: inaccessible_probe_def)
  from no_accessible_results_report[of "[inaccessible_probe]"] h show ?thesis by simp
qed

end
